theory Spec2Isabelle
  imports Complex_Main "HOL-Library.Word" "HOL-Library.Sublist"
begin

section \<open>JavaScript strings\<close>

text \<open>
  A JavaScript string is a sequence of UTF-16 code units, and \<open>length\<close>, the regular
  expressions without the \<open>u\<close> flag, \<open>trim\<close> and \<open>split\<close> all work on code units.
  \<open>js\<close> turns an ASCII literal of the source into such a sequence.
\<close>

type_synonym jschar = "16 word"
type_synonym jsstring = "jschar list"

definition js :: "string \<Rightarrow> jsstring" where
  "js s = map of_char s"

text \<open>The class \<open>\w\<close>: ASCII letters, digits and the underscore.\<close>

definition isWordChar :: "jschar \<Rightarrow> bool" where
  "isWordChar c =
     ((48 \<le> c \<and> c \<le> 57) \<or> (65 \<le> c \<and> c \<le> 90) \<or> c = 95 \<or> (97 \<le> c \<and> c \<le> 122))"

text \<open>
  The class \<open>\s\<close>, which is also what \<open>trim\<close> strips: the white space and line
  terminator code points of ECMAScript.
\<close>

definition isSpace :: "jschar \<Rightarrow> bool" where
  "isSpace c =
     (c \<in> set [0x9, 0xA, 0xB, 0xC, 0xD, 0x20, 0xA0, 0x1680, 0x2028, 0x2029, 0x202F,
                0x205F, 0x3000, 0xFEFF]
      \<or> (0x2000 \<le> c \<and> c \<le> 0x200A))"

definition trim :: "jsstring \<Rightarrow> jsstring" where
  "trim s = rev (dropWhile isSpace (rev (dropWhile isSpace s)))"

text \<open>
  \<open>word.toLowerCase()\<close> is only ever applied to a match of \<open>\w+\<close>, where it changes
  the letters A to Z and nothing else.
\<close>

definition lowerChar :: "jschar \<Rightarrow> jschar" where
  "lowerChar c = (if 65 \<le> c \<and> c \<le> 90 then c + 32 else c)"

definition toLowerCase :: "jsstring \<Rightarrow> jsstring" where
  "toLowerCase s = map lowerChar s"

text \<open>\<open>xs.join(sep)\<close>\<close>

fun join :: "jsstring \<Rightarrow> jsstring list \<Rightarrow> jsstring" where
  "join sep [] = []"
| "join sep [x] = x"
| "join sep (x # y # ys) = x @ sep @ join sep (y # ys)"

text \<open>
  \<open>Array.from(new Set(xs))\<close>: the set keeps the order of first insertion, and strings are
  compared by value. \<open>seen\<close> is what the set holds so far.
\<close>

fun uniqFrom :: "'a list \<Rightarrow> 'a list \<Rightarrow> 'a list" where
  "uniqFrom seen [] = []"
| "uniqFrom seen (x # xs) =
     (if x \<in> set seen then uniqFrom seen xs else x # uniqFrom (x # seen) xs)"

definition uniq :: "'a list \<Rightarrow> 'a list" where
  "uniq xs = uniqFrom [] xs"

section \<open>The noise blocklist\<close>

text \<open>
  The pattern
  \<open>/placeholder|no-script|Business Insider tells the innovative stories you want to know/i\<close>.
  With the \<open>i\<close> flag and no \<open>u\<close> flag a pattern character and a text character match
  when their canonical forms agree; the canonical form is the upper case, except that a
  code unit outside ASCII is never mapped into ASCII. Every character of the three
  phrases is ASCII, so only the ASCII upper case is ever compared.
\<close>

definition noisePhrases :: "jsstring list" where
  "noisePhrases =
     [js ''placeholder'', js ''no-script'',
      js ''Business Insider tells the innovative stories you want to know'']"

definition canonicalize :: "jschar \<Rightarrow> jschar" where
  "canonicalize c = (if 97 \<le> c \<and> c \<le> 122 then c - 32 else c)"

fun matchesAt :: "jsstring \<Rightarrow> jsstring \<Rightarrow> bool" where
  "matchesAt [] s = True"
| "matchesAt (p # ps) [] = False"
| "matchesAt (p # ps) (c # cs) = (canonicalize p = canonicalize c \<and> matchesAt ps cs)"

fun occursIn :: "jsstring \<Rightarrow> jsstring \<Rightarrow> bool" where
  "occursIn p [] = matchesAt p []"
| "occursIn p (c # cs) = (matchesAt p (c # cs) \<or> occursIn p cs)"

text \<open>\<open>s.match(pattern)\<close> is not null.\<close>

definition matchesNoise :: "jsstring \<Rightarrow> bool" where
  "matchesNoise s = list_ex (\<lambda>p. occursIn p s) noisePhrases"

section \<open>The summariser\<close>

text \<open>
  \<open>content.match(/[^.!?\n]+[.!?]?/g) || []\<close>: the matches from left to right. A match
  starts at the first character that is none of \<open>. ! ? \n\<close>, runs as far as such
  characters go, and takes one following \<open>.\<close>, \<open>!\<close> or \<open>?\<close> when there is one.
\<close>

definition isBreak :: "jschar \<Rightarrow> bool" where
  "isBreak c = (c \<in> set [0x2E, 0x21, 0x3F, 0xA])"

definition isTerminal :: "jschar \<Rightarrow> bool" where
  "isTerminal c = (c \<in> set [0x2E, 0x21, 0x3F])"

function sentences :: "jsstring \<Rightarrow> jsstring list" where
  "sentences [] = []"
| "sentences (c # cs) =
     (if isBreak c then sentences cs
      else (case dropWhile (\<lambda>x. \<not> isBreak x) (c # cs) of
              [] \<Rightarrow> [takeWhile (\<lambda>x. \<not> isBreak x) (c # cs)]
            | r # rs \<Rightarrow>
                if isTerminal r
                then (takeWhile (\<lambda>x. \<not> isBreak x) (c # cs) @ [r]) # sentences rs
                else takeWhile (\<lambda>x. \<not> isBreak x) (c # cs) # sentences rs))"
  by pat_completeness auto
termination
proof (relation "measure length")
  show "wf (measure length)" by simp
next
  fix c :: jschar and cs :: jsstring
  show "(cs, c # cs) \<in> measure length" by simp
next
  fix c :: jschar and cs x21 x22
  assume "dropWhile (\<lambda>x. \<not> isBreak x) (c # cs) = x21 # x22"
  then have "length (x21 # x22) \<le> length (c # cs)"
    using length_dropWhile_le [of "\<lambda>x. \<not> isBreak x" "c # cs"] by simp
  then show "(x22, c # cs) \<in> measure length" by simp
next
  fix c :: jschar and cs x21 x22
  assume "dropWhile (\<lambda>x. \<not> isBreak x) (c # cs) = x21 # x22"
  then have "length (x21 # x22) \<le> length (c # cs)"
    using length_dropWhile_le [of "\<lambda>x. \<not> isBreak x" "c # cs"] by simp
  then show "(x22, c # cs) \<in> measure length" by simp
qed

definition keepSentence :: "jsstring \<Rightarrow> bool" where
  "keepSentence s = (30 < length s \<and> \<not> matchesNoise s)"

definition uniqueSentences :: "jsstring \<Rightarrow> jsstring list" where
  "uniqueSentences content = filter keepSentence (uniq (map trim (sentences content)))"

definition generateSummary :: "jsstring \<Rightarrow> jsstring" where
  "generateSummary content = join (js '' '') (take 3 (uniqueSentences content))"

section \<open>The translator\<close>

text \<open>
  \<open>translationDict\<close> is an object literal; the source shows two of its entries and leaves
  the rest out, so the translator takes the dictionary as an argument. A dictionary is
  given by its own properties.
\<close>

type_synonym dictionary = "jsstring \<Rightarrow> jsstring option"

definition translationDict :: dictionary where
  "translationDict = [js ''the'' \<mapsto> [0x6CC, 0x6C1], js ''is'' \<mapsto> [0x6C1, 0x6D2]]"

text \<open>
  \<open>translationDict[cleanWord]\<close> reads a property, and a property that the object does not
  own is looked up in \<open>Object.prototype\<close>. Of the names defined there only
  \<open>constructor\<close> and \<open>__proto__\<close> consist of lower-case word characters, which is all a
  lower-cased match of \<open>\w+\<close> can be. Both values are objects, hence truthy, and
  \<open>replace\<close> converts what the callback returns to a string: the function \<open>Object\<close>
  gives its source text (as Node.js prints it), the prototype object gives
  \<open>[object Object]\<close>.
\<close>

definition inheritedProperty :: "jsstring \<Rightarrow> jsstring option" where
  "inheritedProperty k =
     (if k = js ''constructor'' then Some (js ''function Object() { [native code] }'')
      else if k = js ''__proto__'' then Some (js ''[object Object]'')
      else None)"

text \<open>
  The callback \<open>(word) => translationDict[word.toLowerCase()] || word\<close>, with its result
  as a string. An own value that is the empty string is falsy.
\<close>

definition substitute :: "dictionary \<Rightarrow> jsstring \<Rightarrow> jsstring" where
  "substitute d word =
     (let cleanWord = toLowerCase word
      in case d cleanWord of
           Some v \<Rightarrow> if v = [] then word else v
         | None \<Rightarrow> (case inheritedProperty cleanWord of Some v \<Rightarrow> v | None \<Rightarrow> word))"

text \<open>\<open>text.replace(/\w+/g, f)\<close>: every maximal run of word characters is replaced by \<open>f\<close> of it.\<close>

function replaceWords :: "(jsstring \<Rightarrow> jsstring) \<Rightarrow> jsstring \<Rightarrow> jsstring" where
  "replaceWords f [] = []"
| "replaceWords f (c # cs) =
     (if isWordChar c
      then f (c # takeWhile isWordChar cs) @ replaceWords f (dropWhile isWordChar cs)
      else c # replaceWords f cs)"
  by pat_completeness auto
termination
proof (relation "measure (\<lambda>(f, s). length s)")
  show "wf (measure (\<lambda>(f, s). length s))" by simp
next
  fix f :: "jsstring \<Rightarrow> jsstring" and c :: jschar and cs :: jsstring
  have "length (dropWhile isWordChar cs) \<le> length cs" by (rule length_dropWhile_le)
  then show "((f, dropWhile isWordChar cs), (f, c # cs)) \<in> measure (\<lambda>(f, s). length s)"
    by simp
next
  fix f :: "jsstring \<Rightarrow> jsstring" and c :: jschar and cs :: jsstring
  show "((f, cs), (f, c # cs)) \<in> measure (\<lambda>(f, s). length s)" by simp
qed

definition translateToUrdu :: "dictionary \<Rightarrow> jsstring \<Rightarrow> jsstring" where
  "translateToUrdu d text = replaceWords (substitute d) text"

text \<open>The maximal runs of word characters of a string, \<open>text.match(/\w+/g) || []\<close>.\<close>

function wordRuns :: "jsstring \<Rightarrow> jsstring list" where
  "wordRuns [] = []"
| "wordRuns (c # cs) =
     (if isWordChar c
      then (c # takeWhile isWordChar cs) # wordRuns (dropWhile isWordChar cs)
      else wordRuns cs)"
  by pat_completeness auto
termination
proof (relation "measure length")
  show "wf (measure length)" by simp
next
  fix c :: jschar and cs :: jsstring
  have "length (dropWhile isWordChar cs) \<le> length cs" by (rule length_dropWhile_le)
  then show "(dropWhile isWordChar cs, c # cs) \<in> measure length" by simp
next
  fix c :: jschar and cs :: jsstring
  show "(cs, c # cs) \<in> measure length" by simp
qed

section \<open>The document tree\<close>

text \<open>
  \<open>cheerio.load(html)\<close> parses the page into a tree; the parser is the library's, so the
  extractor is modelled on the tree it works on. A document is the list of the root's
  children.
\<close>

datatype node =
    Text jsstring
  | Comment jsstring
  | Element (tagName: jsstring) (attribs: "(jsstring \<times> jsstring) list") (children: "node list")

type_synonym document = "node list"

text \<open>
  The selectors the source uses: a tag name, \<open>.name\<close>, \<open>#name\<close> and
  \<open>tag[attribute="value"]\<close>. A selector string is a comma-separated list of them and
  matches an element that any of them matches.
\<close>

datatype simple =
    Tag jsstring
  | Class jsstring
  | Id jsstring
  | TagAttr jsstring jsstring jsstring

type_synonym selector = "simple list"

text \<open>
  \<open>s.split(/[P]+/)\<close> for a character class \<open>P\<close>: the pieces between the maximal runs of
  \<open>P\<close>, empty pieces at both ends included; a string without any \<open>P\<close> is the only piece.
\<close>

function splitOn :: "(jschar \<Rightarrow> bool) \<Rightarrow> jsstring \<Rightarrow> jsstring list" where
  "splitOn P s =
     (case dropWhile (\<lambda>c. \<not> P c) s of
        [] \<Rightarrow> [s]
      | r # rs \<Rightarrow> takeWhile (\<lambda>c. \<not> P c) s # splitOn P (dropWhile P rs))"
  by pat_completeness auto
termination
proof (relation "measure (\<lambda>(P, s). length s)")
  show "wf (measure (\<lambda>(P, s). length s))" by simp
next
  fix P :: "jschar \<Rightarrow> bool" and s :: jsstring and r rs
  assume "dropWhile (\<lambda>c. \<not> P c) s = r # rs"
  then have "length (r # rs) \<le> length s"
    using length_dropWhile_le [of "\<lambda>c. \<not> P c" s] by simp
  moreover have "length (dropWhile P rs) \<le> length rs"
    by (rule length_dropWhile_le)
  ultimately show "((P, dropWhile P rs), (P, s)) \<in> measure (\<lambda>(P, s). length s)" by simp
qed

declare splitOn.simps [simp del]

text \<open>
  A class selector holds when the name is one of the white-space separated words of the
  \<open>class\<close> attribute, an id selector when the \<open>id\<close> attribute is the name.
\<close>

fun matchesSimple :: "simple \<Rightarrow> node \<Rightarrow> bool" where
  "matchesSimple (Tag t) (Element t' as cs) = (t' = t)"
| "matchesSimple (Class c) (Element t' as cs) =
     (case map_of as (js ''class'') of
        None \<Rightarrow> False
      | Some v \<Rightarrow> c \<in> set (splitOn isSpace v))"
| "matchesSimple (Id i) (Element t' as cs) = (map_of as (js ''id'') = Some i)"
| "matchesSimple (TagAttr t a v) (Element t' as cs) = (t' = t \<and> map_of as a = Some v)"
| "matchesSimple s n = False"

definition matches :: "selector \<Rightarrow> node \<Rightarrow> bool" where
  "matches sel n = list_ex (\<lambda>s. matchesSimple s n) sel"

text \<open>\<open>$(sel)\<close>: the matching elements of the whole tree, in document order.\<close>

fun selectNode :: "selector \<Rightarrow> node \<Rightarrow> node list" where
  "selectNode sel (Element t as cs) =
     (if matches sel (Element t as cs) then [Element t as cs] else [])
       @ concat (map (selectNode sel) cs)"
| "selectNode sel n = []"

definition select :: "selector \<Rightarrow> document \<Rightarrow> node list" where
  "select sel doc = concat (map (selectNode sel) doc)"

text \<open>\<open>.text()\<close>: the text of every selected element, descendants included, concatenated.\<close>

fun textContent :: "node \<Rightarrow> jsstring" where
  "textContent (Text s) = s"
| "textContent (Comment s) = []"
| "textContent (Element t as cs) = concat (map textContent cs)"

definition textOf :: "node list \<Rightarrow> jsstring" where
  "textOf ns = concat (map textContent ns)"

text \<open>\<open>$(sel).remove()\<close>: the tree without the matching elements and what is below them.\<close>

fun prune :: "selector \<Rightarrow> node \<Rightarrow> node" where
  "prune sel (Element t as cs) =
     Element t as (map (prune sel) (filter (\<lambda>c. \<not> matches sel c) cs))"
| "prune sel n = n"

definition removeMatching :: "selector \<Rightarrow> document \<Rightarrow> document" where
  "removeMatching sel doc = map (prune sel) (filter (\<lambda>n. \<not> matches sel n) doc)"

section \<open>The extractor\<close>

definition noiseSelector :: selector where
  "noiseSelector =
     [Tag (js ''script''), Tag (js ''style''), Tag (js ''nav''), Tag (js ''header''),
      Tag (js ''footer''), Tag (js ''aside''), Tag (js ''img''), Class (js ''no-script''),
      Class (js ''placeholder'')]"

definition contentSelectors :: "selector list" where
  "contentSelectors =
     [[Tag (js ''article'')], [Class (js ''post-content'')], [Class (js ''entry-content'')],
      [Class (js ''content'')], [Tag (js ''main'')], [Class (js ''main-content'')],
      [Id (js ''content'')], [Class (js ''post-body'')]]"

text \<open>
  The loop over \<open>contentSelectors\<close>: the first selector with at least one element gives
  its text and ends the loop; with none, \<open>content\<close> stays the empty string.
\<close>

fun selectContent :: "selector list \<Rightarrow> document \<Rightarrow> jsstring" where
  "selectContent [] doc = []"
| "selectContent (selector # selectors) doc =
     (if 0 < length (select selector doc) then textOf (select selector doc)
      else selectContent selectors doc)"

text \<open>\<open>content.replace(/\s+/g, " ")\<close>\<close>

function collapseSpaces :: "jsstring \<Rightarrow> jsstring" where
  "collapseSpaces [] = []"
| "collapseSpaces (c # cs) =
     (if isSpace c then 0x20 # collapseSpaces (dropWhile isSpace cs)
      else c # collapseSpaces cs)"
  by pat_completeness auto
termination
proof (relation "measure length")
  show "wf (measure length)" by simp
next
  fix c :: jschar and cs :: jsstring
  have "length (dropWhile isSpace cs) \<le> length cs" by (rule length_dropWhile_le)
  then show "(dropWhile isSpace cs, c # cs) \<in> measure length" by simp
next
  fix c :: jschar and cs :: jsstring
  show "(cs, c # cs) \<in> measure length" by simp
qed

definition isLineBreak :: "jschar \<Rightarrow> bool" where
  "isLineBreak c = (c \<in> set [0xD, 0xA])"

definition keepLine :: "jsstring \<Rightarrow> bool" where
  "keepLine line = (0 < length line \<and> \<not> matchesNoise line)"

text \<open>The text chosen before it is normalised: the variable \<open>content\<close> after line 63.\<close>

definition selectedContent :: "document \<Rightarrow> jsstring" where
  "selectedContent doc =
     (let content = selectContent contentSelectors doc
      in if content = [] then textOf (select [Tag (js ''body'')] doc) else content)"

definition normalizeLines :: "jsstring \<Rightarrow> jsstring list" where
  "normalizeLines content =
     filter keepLine (map trim (splitOn isLineBreak (collapseSpaces content)))"

definition extractTextFromHtml :: "document \<Rightarrow> jsstring" where
  "extractTextFromHtml html =
     (let doc = removeMatching noiseSelector html;
          content = selectedContent doc;
          lines = normalizeLines content;
          uniqueLines = uniq lines
      in join (js '' '') uniqueLines)"

definition calculateReadTime :: "nat \<Rightarrow> nat" where
  "calculateReadTime wordCount = nat \<lceil>real wordCount / 200\<rceil>"

section \<open>The request handler\<close>

text \<open>The value \<open>request.json()\<close> resolves with.\<close>

datatype json =
    JNull
  | JBool bool
  | JNumber real
  | JString jsstring
  | JArray "json list"
  | JObject "(jsstring \<times> json) list"

text \<open>
  \<open>const { url } = body\<close>: a \<open>TypeError\<close> for \<open>null\<close> (the outer \<open>None\<close>), the member
  of an object (the last one when the name is repeated), and \<open>undefined\<close> (the inner
  \<open>None\<close>) for an object without it and for any other value.
\<close>

fun destructureUrl :: "json \<Rightarrow> json option option" where
  "destructureUrl JNull = None"
| "destructureUrl (JObject members) = Some (map_of (rev members) (js ''url''))"
| "destructureUrl v = Some None"

text \<open>Whether \<open>!v\<close> is false.\<close>

fun truthy :: "json \<Rightarrow> bool" where
  "truthy JNull = False"
| "truthy (JBool b) = b"
| "truthy (JNumber x) = (x \<noteq> 0)"
| "truthy (JString s) = (s \<noteq> [])"
| "truthy v = True"

text \<open>
  What lies outside the program, for one request: whether \<open>new URL(url)\<close> returns, and
  how \<open>axios.get(url)\<close> settles should it be called: with a page (given as the tree
  that \<open>cheerio.load\<close> makes of it), with an axios error carrying a code and perhaps
  the status of a response, or with any other exception.
\<close>

datatype fetched =
    Page document
  | AxiosError "string option" "nat option"
  | OtherError

record world =
  urlParses :: bool
  fetchResult :: fetched

text \<open>The calls that leave the program, with their argument.\<close>

datatype call = NewURL json | AxiosGet json

record processedBlog =
  url :: json
  title :: jsstring
  content :: jsstring
  summary :: jsstring
  urduSummary :: jsstring
  wordCount :: nat
  readTime :: nat

datatype response =
    ErrorJson nat string
  | BlogJson nat processedBlog

definition extractTitle :: "document \<Rightarrow> jsstring" where
  "extractTitle doc =
     (let t1 = trim (textOf (select [Tag (js ''title'')] doc));
          t2 = trim (textOf (take 1 (select [Tag (js ''h1'')] doc)));
          t3 = (case select [TagAttr (js ''meta'') (js ''property'') (js ''og:title'')] doc of
                  [] \<Rightarrow> None
                | m # ms \<Rightarrow> map_of (attribs m) (js ''content''))
      in if t1 \<noteq> [] then t1
         else if t2 \<noteq> [] then t2
         else (case t3 of
                 None \<Rightarrow> js ''Untitled Article''
               | Some t \<Rightarrow> if t \<noteq> [] then t else js ''Untitled Article''))"

text \<open>The \<open>catch\<close> block.\<close>

definition internalError :: response where
  "internalError = ErrorJson 500 ''Failed to process the blog. Please try again.''"

definition catchAxios :: "string option \<Rightarrow> nat option \<Rightarrow> response" where
  "catchAxios code status =
     (if code = Some ''ENOTFOUND'' \<or> code = Some ''ECONNREFUSED''
      then ErrorJson 400 ''Could not connect to the website. Please check the URL.''
      else if status = Some 404
      then ErrorJson 400 ''The webpage was not found (404).''
      else if status = Some 403
      then ErrorJson 400 ''Access forbidden. The website may be blocking automated requests.''
      else if code = Some ''ECONNABORTED''
      then ErrorJson 400 ''Request timeout. The website took too long to respond.''
      else internalError)"

text \<open>Lines 147 to 205: what the handler does with the fetched page.\<close>

definition processPage :: "json \<Rightarrow> document \<Rightarrow> response" where
  "processPage u html =
     (let ttl = extractTitle html;
          cnt = extractTextFromHtml html
      in if cnt = [] \<or> length cnt < 100
         then ErrorJson 400 ''Could not extract sufficient content from the webpage''
         else
           let smry = generateSummary cnt
           in if smry = []
              then ErrorJson 400 ''Could not generate summary from the content''
              else
                let urdu = translateToUrdu translationDict smry;
                    wc = length (splitOn isSpace cnt);
                    rt = calculateReadTime wc
                in BlogJson 200
                     \<lparr>url = u, title = take 200 ttl, content = take 5000 cnt, summary = smry,
                      urduSummary = urdu, wordCount = wc, readTime = rt\<rparr>)"

text \<open>
  \<open>POST\<close>, given the body of the request (\<open>None\<close> when it is not JSON and
  \<open>request.json()\<close> rejects). The second component lists, in order, the calls of
  \<open>new URL\<close> and \<open>axios.get\<close> that were made.
\<close>

definition POST :: "world \<Rightarrow> json option \<Rightarrow> response \<times> call list" where
  "POST w body =
     (case body of
        None \<Rightarrow> (internalError, [])
      | Some b \<Rightarrow>
          (case destructureUrl b of
             None \<Rightarrow> (internalError, [])
           | Some None \<Rightarrow> (ErrorJson 400 ''URL is required'', [])
           | Some (Some u) \<Rightarrow>
               if \<not> truthy u then (ErrorJson 400 ''URL is required'', [])
               else if \<not> urlParses w then (ErrorJson 400 ''Invalid URL format'', [NewURL u])
               else
                 (case fetchResult w of
                    Page html \<Rightarrow> (processPage u html, [NewURL u, AxiosGet u])
                  | AxiosError code status \<Rightarrow>
                      (catchAxios code status, [NewURL u, AxiosGet u])
                  | OtherError \<Rightarrow> (internalError, [NewURL u, AxiosGet u]))))"

text \<open>
  The tokens that white space delimits: the maximal runs of characters that are not
  white space.
\<close>

function whitespaceTokens :: "jsstring \<Rightarrow> jsstring list" where
  "whitespaceTokens [] = []"
| "whitespaceTokens (c # cs) =
     (if isSpace c then whitespaceTokens cs
      else (c # takeWhile (\<lambda>x. \<not> isSpace x) cs)
             # whitespaceTokens (dropWhile (\<lambda>x. \<not> isSpace x) cs))"
  by pat_completeness auto
termination
proof (relation "measure length")
  show "wf (measure length)" by simp
next
  fix c :: jschar and cs :: jsstring
  show "(cs, c # cs) \<in> measure length" by simp
next
  fix c :: jschar and cs :: jsstring
  have "length (dropWhile (\<lambda>x. \<not> isSpace x) cs) \<le> length cs" by (rule length_dropWhile_le)
  then show "(dropWhile (\<lambda>x. \<not> isSpace x) cs, c # cs) \<in> measure length" by simp
qed

section \<open>Sample pages\<close>

text \<open>An element whose tag and attributes are written as ASCII literals.\<close>

definition el :: "string \<Rightarrow> (string \<times> string) list \<Rightarrow> node list \<Rightarrow> node" where
  "el t as cs = Element (js t) (map (\<lambda>(a, v). (js a, js v)) as) cs"

text \<open>
  \<open><html><head></head><body><article></article><div class="content">Hello</div><p>Bye</p></body></html>\<close>
\<close>

definition emptyArticlePage :: document where
  "emptyArticlePage =
     [el ''html'' []
        [el ''head'' [] [],
         el ''body'' []
           [el ''article'' [] [],
            el ''div'' [(''class'', ''content'')] [Text (js ''Hello'')],
            el ''p'' [] [Text (js ''Bye'')]]]]"

text \<open>
  A page with an article inside \<open>nav\<close>, a \<open>.content\<close> block, and a second article that
  holds a placeholder paragraph and text broken by a newline and a tab.
\<close>

definition articlePage :: document where
  "articlePage =
     [el ''html'' []
        [el ''head'' [] [el ''title'' [] [Text (js ''T'')]],
         el ''body'' []
           [el ''nav'' [] [el ''article'' [] [Text (js ''Menu'')]],
            el ''div'' [(''class'', ''main content'')] [Text (js ''Other'')],
            el ''article'' []
              [Text (js ''  Hello   world ''),
               el ''p'' [(''class'', ''x placeholder'')] [Text (js ''ad'')],
               Text [0xA, 0x9], Text (js ''again'')]]]]"

section \<open>Sample dictionaries\<close>

text \<open>\<open>{ good: "very nice", nice: "fine" }\<close>\<close>

definition chainedDict :: dictionary where
  "chainedDict = [js ''good'' \<mapsto> js ''very nice'', js ''nice'' \<mapsto> js ''fine'']"

text \<open>\<open>{ good: "very nice" }\<close>\<close>

definition niceDict :: dictionary where
  "niceDict = [js ''good'' \<mapsto> js ''very nice'']"

text \<open>The dictionary of the specification's example, \<open>hello\<close> and \<open>world\<close> in Urdu.\<close>

definition helloWorldDict :: dictionary where
  "helloWorldDict =
     [js ''hello'' \<mapsto> [0x633, 0x644, 0x627, 0x645],
      js ''world'' \<mapsto> [0x62F, 0x646, 0x6CC, 0x627]]"

section \<open>Sample requests\<close>

definition blogText :: jsstring where
  "blogText = js ''The quick brown fox jumps over the lazy dog today. Hi. Another sentence that is long enough to pass! Hi. x''"

definition blandText :: jsstring where
  "blandText = js ''One two three. Four five six. Seven eight nine. Ten eleven twelve. Thirteen fourteen. Fifteen sixteen. Seventeen.''"

text \<open>A page whose article holds the given text.\<close>

definition pageOf :: "jsstring \<Rightarrow> document" where
  "pageOf t =
     [el ''html'' []
        [el ''head'' [] [el ''title'' [] [Text (js ''Notes'')]],
         el ''body'' [] [el ''article'' [] [Text t]]]]"

text \<open>The body \<open>{ "url": s }\<close>.\<close>

definition urlBody :: "jsstring \<Rightarrow> json" where
  "urlBody s = JObject [(js ''url'', JString s)]"

text \<open>A world in which the URL parses and the fetch returns the page.\<close>

definition online :: "document \<Rightarrow> world" where
  "online page = \<lparr>urlParses = True, fetchResult = Page page\<rparr>"

text \<open>A world in which \<open>new URL(url)\<close> throws.\<close>

definition unparsable :: world where
  "unparsable = \<lparr>urlParses = False, fetchResult = OtherError\<rparr>"

definition sampleUrl :: jsstring where
  "sampleUrl = js ''https://example.com/post''"

definition sampleBlog :: processedBlog where
  "sampleBlog =
     \<lparr>url = JString sampleUrl, title = js ''Notes'', content = blogText,
      summary = js ''The quick brown fox jumps over the lazy dog today. Another sentence that is long enough to pass!'',
      urduSummary = [0x6CC, 0x6C1] @ js '' quick brown fox jumps over '' @ [0x6CC, 0x6C1]
        @ js '' lazy dog today. Another sentence that '' @ [0x6C1, 0x6D2]
        @ js '' long enough to pass!'',
      wordCount = 21, readTime = 1\<rparr>"

text \<open>
  A body lacks a \<open>url\<close> field when it is not an object with a member of that name.
\<close>

definition lacksUrlField :: "json \<Rightarrow> bool" where
  "lacksUrlField b =
     (case b of JObject members \<Rightarrow> js ''url'' \<notin> fst ` set members | _ \<Rightarrow> True)"

section \<open>Properties of the helpers\<close>

lemma subseq_uniqFrom: "subseq (uniqFrom seen xs) xs"
  by (induction xs arbitrary: seen) auto

lemma uniqFrom_fresh: "x \<in> set (uniqFrom seen xs) \<Longrightarrow> x \<notin> set seen"
proof (induction xs arbitrary: seen)
  case Nil
  then show ?case by simp
next
  case (Cons y ys)
  show ?case
  proof (cases "y \<in> set seen")
    case True
    with Cons show ?thesis by simp
  next
    case False
    with Cons.prems have "x = y \<or> x \<in> set (uniqFrom (y # seen) ys)" by simp
    then show ?thesis
    proof
      assume "x = y"
      with False show ?thesis by simp
    next
      assume "x \<in> set (uniqFrom (y # seen) ys)"
      then have "x \<notin> set (y # seen)" by (rule Cons.IH)
      then show ?thesis by simp
    qed
  qed
qed

lemma distinct_uniqFrom: "distinct (uniqFrom seen xs)"
proof (induction xs arbitrary: seen)
  case Nil
  show ?case by simp
next
  case (Cons x xs)
  have "x \<notin> set (uniqFrom (x # seen) xs)"
    using uniqFrom_fresh [of x "x # seen" xs] by auto
  with Cons show ?case by simp
qed

lemma subseq_take_self: "subseq (take n xs) xs"
proof -
  have "subseq (take n xs) (take n xs @ drop n xs)"
    by (rule list_emb_prefix) simp
  then show ?thesis by simp
qed

lemma uniqueSentences_subseq:
  "subseq (take n (uniqueSentences txt)) (map trim (sentences txt))"
proof -
  have "subseq (take n (uniqueSentences txt)) (uniqueSentences txt)"
    by (rule subseq_take_self)
  also have "subseq (uniqueSentences txt) (uniq (map trim (sentences txt)))"
    by (simp add: uniqueSentences_def)
  also have "subseq (uniq (map trim (sentences txt))) (map trim (sentences txt))"
    by (simp add: uniq_def subseq_uniqFrom)
  finally show ?thesis .
qed

lemma uniqueSentences_distinct: "distinct (uniqueSentences txt)"
  by (simp add: uniqueSentences_def uniq_def distinct_uniqFrom)

lemma uniqueSentences_keep: "s \<in> set (uniqueSentences txt) \<Longrightarrow> keepSentence s"
  by (simp add: uniqueSentences_def)

section \<open>Claims about the summariser\<close>

text \<open>
  C3. For every string given to the summariser, the summary is made of at most three
  sentences joined by single spaces; each is a trimmed match of the sentence pattern,
  longer than 30 code units and free of the noise phrases; they are pairwise different
  and stand in the order in which the input has them.
\<close>

theorem generateSummary_shape:
  "\<exists>ss. generateSummary txt = join (js '' '') ss
      \<and> length ss \<le> 3
      \<and> (\<forall>s \<in> set ss. 30 < length s \<and> \<not> matchesNoise s)
      \<and> distinct ss
      \<and> subseq ss (map trim (sentences txt))"
proof -
  let ?ss = "take 3 (uniqueSentences txt)"
  have "generateSummary txt = join (js '' '') ?ss"
    by (simp add: generateSummary_def)
  moreover have "length ?ss \<le> 3" by simp
  moreover have "\<forall>s \<in> set ?ss. 30 < length s \<and> \<not> matchesNoise s"
  proof
    fix s assume "s \<in> set ?ss"
    then have "s \<in> set (uniqueSentences txt)" by (rule in_set_takeD)
    then have "keepSentence s" by (rule uniqueSentences_keep)
    then show "30 < length s \<and> \<not> matchesNoise s" by (simp add: keepSentence_def)
  qed
  moreover have "distinct ?ss"
    by (rule distinct_take) (rule uniqueSentences_distinct)
  moreover have "subseq ?ss (map trim (sentences txt))"
    by (rule uniqueSentences_subseq)
  ultimately show ?thesis by blast
qed

theorem generateSummary_shape_witness:
  "generateSummary blogText
     = js ''The quick brown fox jumps over the lazy dog today. Another sentence that is long enough to pass!''
   \<and> (\<exists>ss. generateSummary blogText = join (js '' '') ss
      \<and> length ss \<le> 3
      \<and> (\<forall>s \<in> set ss. 30 < length s \<and> \<not> matchesNoise s)
      \<and> distinct ss
      \<and> subseq ss (map trim (sentences blogText)))"
proof
  show "generateSummary blogText
     = js ''The quick brown fox jumps over the lazy dog today. Another sentence that is long enough to pass!''"
    by code_simp
next
  show "\<exists>ss. generateSummary blogText = join (js '' '') ss
      \<and> length ss \<le> 3
      \<and> (\<forall>s \<in> set ss. 30 < length s \<and> \<not> matchesNoise s)
      \<and> distinct ss
      \<and> subseq ss (map trim (sentences blogText))"
    by (rule generateSummary_shape)
qed

section \<open>Properties of the extractor\<close>

lemma collapseSpaces_chars: "x \<in> set (collapseSpaces s) \<Longrightarrow> x = 0x20 \<or> \<not> isSpace x"
  by (induction s rule: collapseSpaces.induct) (auto split: if_splits)

lemma isLineBreak_isSpace: "isLineBreak x \<Longrightarrow> isSpace x \<and> x \<noteq> 0x20"
  by (auto simp: isLineBreak_def isSpace_def)

lemma splitOn_single: "\<forall>x \<in> set s. \<not> P x \<Longrightarrow> splitOn P s = [s]"
proof -
  assume "\<forall>x \<in> set s. \<not> P x"
  then have d: "dropWhile (\<lambda>c. \<not> P c) s = []" by simp
  show ?thesis unfolding splitOn.simps [of P s] d by simp
qed

lemma normalizeLines_single:
  "normalizeLines c =
     (if keepLine (trim (collapseSpaces c)) then [trim (collapseSpaces c)] else [])"
proof -
  have "\<forall>x \<in> set (collapseSpaces c). \<not> isLineBreak x"
    using collapseSpaces_chars isLineBreak_isSpace by blast
  then have "splitOn isLineBreak (collapseSpaces c) = [collapseSpaces c]"
    by (rule splitOn_single)
  then show ?thesis by (simp add: normalizeLines_def)
qed

lemma extractTextFromHtml_line:
  "extractTextFromHtml html =
     (if keepLine (trim (collapseSpaces (selectedContent (removeMatching noiseSelector html))))
      then trim (collapseSpaces (selectedContent (removeMatching noiseSelector html)))
      else [])"
  by (simp add: extractTextFromHtml_def Let_def normalizeLines_single uniq_def)

lemma matchesNoise_empty: "\<not> matchesNoise []"
  by (simp add: matchesNoise_def noisePhrases_def js_def)

lemma extractTextFromHtml_clean: "\<not> matchesNoise (extractTextFromHtml html)"
  by (simp add: extractTextFromHtml_line matchesNoise_empty keepLine_def)

lemma matchesAt_append:
  "map canonicalize w = map canonicalize p \<Longrightarrow> matchesAt p (w @ v)"
  by (induction p arbitrary: w) auto

lemma occursIn_here: "matchesAt p s \<Longrightarrow> occursIn p s"
  by (cases s) auto

lemma occursIn_append: "matchesAt p s \<Longrightarrow> occursIn p (u @ s)"
  by (induction u) (auto simp: occursIn_here)

section \<open>Claims about the extractor\<close>

text \<open>
  C1. Whatever the page, the text the extractor returns matches none of the noise
  phrases: no part of it equals \<open>placeholder\<close>, \<open>no-script\<close> or the Business Insider
  sentence when upper and lower case are not told apart.
\<close>

theorem extractTextFromHtml_no_noise:
  "\<not> matchesNoise (extractTextFromHtml html)
   \<and> (\<forall>p \<in> set noisePhrases.
        \<not> (\<exists>u w v. extractTextFromHtml html = u @ w @ v
                   \<and> map canonicalize w = map canonicalize p))"
proof
  show clean: "\<not> matchesNoise (extractTextFromHtml html)"
    by (rule extractTextFromHtml_clean)
  show "\<forall>p \<in> set noisePhrases.
        \<not> (\<exists>u w v. extractTextFromHtml html = u @ w @ v
                   \<and> map canonicalize w = map canonicalize p)"
  proof (intro ballI notI)
    fix p
    assume p: "p \<in> set noisePhrases"
    assume "\<exists>u w v. extractTextFromHtml html = u @ w @ v
                   \<and> map canonicalize w = map canonicalize p"
    then obtain u w v where e: "extractTextFromHtml html = u @ w @ v"
      and m: "map canonicalize w = map canonicalize p" by blast
    from m have "matchesAt p (w @ v)" by (rule matchesAt_append)
    then have "occursIn p (u @ w @ v)" by (rule occursIn_append)
    with e have "occursIn p (extractTextFromHtml html)" by simp
    with p have "matchesNoise (extractTextFromHtml html)"
      by (auto simp: matchesNoise_def list_ex_iff)
    with clean show False by simp
  qed
qed

theorem extractTextFromHtml_no_noise_witness:
  "extractTextFromHtml articlePage = js ''Hello world again''
   \<and> extractTextFromHtml (pageOf (js ''Some text. A PlaceHolder line.'')) = []
   \<and> \<not> matchesNoise (extractTextFromHtml articlePage)
   \<and> \<not> (\<exists>u w v. extractTextFromHtml articlePage = u @ w @ v
              \<and> map canonicalize w = map canonicalize (js ''placeholder''))
   \<and> \<not> (\<exists>u w v. extractTextFromHtml articlePage = u @ w @ v
              \<and> map canonicalize w = map canonicalize (js ''no-script''))
   \<and> \<not> (\<exists>u w v. extractTextFromHtml articlePage = u @ w @ v
              \<and> map canonicalize w = map canonicalize
                    (js ''Business Insider tells the innovative stories you want to know''))"
proof -
  have e: "extractTextFromHtml articlePage = js ''Hello world again''"
    by code_simp
  have p: "set noisePhrases =
             {js ''placeholder'', js ''no-script'',
              js ''Business Insider tells the innovative stories you want to know''}"
    by (simp add: noisePhrases_def)
  have n: "extractTextFromHtml (pageOf (js ''Some text. A PlaceHolder line.'')) = []"
    by code_simp
  from extractTextFromHtml_no_noise [of articlePage] e n show ?thesis
    unfolding p by blast
qed

lemma selectContent_first:
  "i < length sels \<Longrightarrow> select (sels ! i) doc \<noteq> [] \<Longrightarrow> \<forall>j<i. select (sels ! j) doc = []
   \<Longrightarrow> selectContent sels doc = textOf (select (sels ! i) doc)"
proof (induction sels arbitrary: i)
  case Nil
  then show ?case by simp
next
  case (Cons s sels)
  show ?case
  proof (cases i)
    case 0
    with Cons.prems show ?thesis by simp
  next
    case (Suc k)
    with Cons.prems have "select s doc = []" by auto
    moreover have "selectContent sels doc = textOf (select (sels ! k) doc)"
    proof (rule Cons.IH)
      show "k < length sels" using Cons.prems Suc by simp
      show "select (sels ! k) doc \<noteq> []" using Cons.prems Suc by simp
      show "\<forall>j<k. select (sels ! j) doc = []"
      proof (intro allI impI)
        fix j assume "j < k"
        then have "Suc j < i" using Suc by simp
        with Cons.prems have "select ((s # sels) ! Suc j) doc = []" by blast
        then show "select (sels ! j) doc = []" by simp
      qed
    qed
    ultimately show ?thesis using Suc by simp
  qed
qed

text \<open>
  C2, as the code has it. The selectors are tried in order on the page left after the
  noise elements are removed. The first selector that matches at least one element
  ends the search, and the selected content is the text of all the elements it matches;
  only when that text is empty is the text of \<open>body\<close> taken instead.
\<close>

theorem first_matching_selector_wins:
  assumes "i < length contentSelectors"
    and "select (contentSelectors ! i) (removeMatching noiseSelector html) \<noteq> []"
    and "\<forall>j<i. select (contentSelectors ! j) (removeMatching noiseSelector html) = []"
  shows "selectedContent (removeMatching noiseSelector html) =
           (if textOf (select (contentSelectors ! i) (removeMatching noiseSelector html)) = []
            then textOf (select [Tag (js ''body'')] (removeMatching noiseSelector html))
            else textOf (select (contentSelectors ! i) (removeMatching noiseSelector html)))"
proof -
  have "selectContent contentSelectors (removeMatching noiseSelector html) =
          textOf (select (contentSelectors ! i) (removeMatching noiseSelector html))"
    using assms by (rule selectContent_first)
  then show ?thesis by (simp add: selectedContent_def)
qed

theorem first_matching_selector_wins_witness:
  "0 < length contentSelectors
   \<and> contentSelectors ! 0 = [Tag (js ''article'')]
   \<and> select (contentSelectors ! 0) (removeMatching noiseSelector articlePage) \<noteq> []
   \<and> select [Class (js ''content'')] (removeMatching noiseSelector articlePage) \<noteq> []
   \<and> selectedContent (removeMatching noiseSelector articlePage)
       = js ''  Hello   world '' @ [0xA, 0x9] @ js ''again''"
proof -
  have h0: "0 < length contentSelectors"
    by (simp add: contentSelectors_def)
  have h1: "select (contentSelectors ! 0) (removeMatching noiseSelector articlePage) \<noteq> []"
    by code_simp
  have h2: "\<forall>j<0. select (contentSelectors ! j) (removeMatching noiseSelector articlePage) = []"
    by simp
  have t: "textOf (select (contentSelectors ! 0) (removeMatching noiseSelector articlePage))
             = js ''  Hello   world '' @ [0xA, 0x9] @ js ''again''"
    by code_simp
  have "selectedContent (removeMatching noiseSelector articlePage)
          = js ''  Hello   world '' @ [0xA, 0x9] @ js ''again''"
    using first_matching_selector_wins [OF h0 h1 h2] unfolding t by (simp add: js_def)
  moreover have "contentSelectors ! 0 = [Tag (js ''article'')]"
    by (simp add: contentSelectors_def)
  moreover have "select [Class (js ''content'')] (removeMatching noiseSelector articlePage) \<noteq> []"
    by code_simp
  ultimately show ?thesis using h0 h1 by blast
qed

text \<open>
  C2 as the specification words it fails on a page whose article is empty: the article
  and the \<open>.content\<close> block both exist and differ in text, and the selected content is
  neither the text of the article nor that of the \<open>.content\<close> block, but the text of
  the whole \<open>body\<close>.
\<close>

theorem article_text_counterexample:
  "select [Tag (js ''article'')] emptyArticlePage \<noteq> []
   \<and> select [Class (js ''content'')] emptyArticlePage \<noteq> []
   \<and> textOf (select [Tag (js ''article'')] emptyArticlePage) = []
   \<and> textOf (select [Class (js ''content'')] emptyArticlePage) = js ''Hello''
   \<and> removeMatching noiseSelector emptyArticlePage = emptyArticlePage
   \<and> selectedContent (removeMatching noiseSelector emptyArticlePage) = js ''HelloBye''
   \<and> selectedContent (removeMatching noiseSelector emptyArticlePage)
       \<noteq> textOf (select [Tag (js ''article'')] emptyArticlePage)
   \<and> extractTextFromHtml emptyArticlePage = js ''HelloBye''"
  by code_simp

section \<open>Properties of the translator\<close>

lemma takeWhile_append_stop:
  "b = [] \<or> \<not> P (hd b) \<Longrightarrow> takeWhile P (cs @ b) = takeWhile P cs"
  by (induction cs) (auto, cases b, auto)

lemma dropWhile_append_stop:
  "b = [] \<or> \<not> P (hd b) \<Longrightarrow> dropWhile P (cs @ b) = dropWhile P cs @ b"
  by (induction cs) (auto, cases b, auto)

lemma replaceWords_append:
  "b = [] \<or> \<not> isWordChar (hd b) \<Longrightarrow> replaceWords f (a @ b) = replaceWords f a @ replaceWords f b"
proof (induction f a rule: replaceWords.induct)
  case (1 f)
  show ?case by simp
next
  case (2 f c cs)
  show ?case
  proof (cases "isWordChar c")
    case True
    have "replaceWords f (dropWhile isWordChar cs @ b) =
            replaceWords f (dropWhile isWordChar cs) @ replaceWords f b"
      using 2 True by simp
    then show ?thesis
      using True 2(3) by (simp add: takeWhile_append_stop dropWhile_append_stop)
  next
    case False
    with 2 show ?thesis by simp
  qed
qed

lemma replaceWords_stop:
  "s = [] \<or> \<not> isWordChar (hd s) \<Longrightarrow>
   replaceWords f s = [] \<or> \<not> isWordChar (hd (replaceWords f s))"
  by (cases s) auto

lemma dropWhile_stop: "dropWhile P cs = [] \<or> \<not> P (hd (dropWhile P cs))"
  using hd_dropWhile [of P cs] by blast

lemma replaceWords_fixed:
  "\<forall>w \<in> set (wordRuns v). f w = w \<Longrightarrow> replaceWords f v = v"
  by (induction f v rule: replaceWords.induct) (auto split: if_splits)

lemma wordRuns_word:
  "w \<in> set (wordRuns t) \<Longrightarrow> \<exists>c cs. w = c # cs \<and> isWordChar c \<and> (\<forall>x \<in> set cs. isWordChar x)"
proof (induction t rule: wordRuns.induct)
  case 1
  then show ?case by simp
next
  case (2 c cs)
  show ?case
  proof (cases "isWordChar c")
    case True
    with 2 show ?thesis
      by (auto dest: set_takeWhileD)
  next
    case False
    with 2 show ?thesis by simp
  qed
qed

lemma replaceWords_word:
  "isWordChar c \<Longrightarrow> \<forall>x \<in> set cs. isWordChar x \<Longrightarrow> replaceWords f (c # cs) = f (c # cs)"
proof -
  assume c: "isWordChar c" and cs: "\<forall>x \<in> set cs. isWordChar x"
  from cs have t: "takeWhile isWordChar cs = cs" by (simp add: takeWhile_eq_all_conv)
  from cs have d: "dropWhile isWordChar cs = []" by simp
  show ?thesis using c by (simp add: t d)
qed

lemma replaceWords_idem:
  "\<forall>w \<in> set (wordRuns t). replaceWords f (f w) = f w \<Longrightarrow>
   replaceWords f (replaceWords f t) = replaceWords f t"
proof (induction f t rule: replaceWords.induct)
  case (1 f)
  show ?case by simp
next
  case (2 f c cs)
  show ?case
  proof (cases "isWordChar c")
    case True
    let ?w = "c # takeWhile isWordChar cs"
    let ?rest = "dropWhile isWordChar cs"
    have w: "replaceWords f (f ?w) = f ?w" using 2(3) True by simp
    have ih: "replaceWords f (replaceWords f ?rest) = replaceWords f ?rest"
      using 2 True by simp
    have "replaceWords f ?rest = [] \<or> \<not> isWordChar (hd (replaceWords f ?rest))"
      by (rule replaceWords_stop) (rule dropWhile_stop)
    then have "replaceWords f (f ?w @ replaceWords f ?rest) =
                 replaceWords f (f ?w) @ replaceWords f (replaceWords f ?rest)"
      by (rule replaceWords_append)
    with w ih True show ?thesis by simp
  next
    case False
    with 2 show ?thesis by simp
  qed
qed

section \<open>Claims about the translator\<close>

text \<open>
  C4, as the code has it. Translating twice gives what translating once gives when the
  lookup leaves every maximal run of word characters of every replacement value as it
  is, for a text in which no run that the dictionary lacks is, in lower case, a property
  that the dictionary object inherits.
\<close>

theorem translateToUrdu_idempotent:
  assumes vals: "\<forall>k v. d k = Some v \<longrightarrow> (\<forall>w \<in> set (wordRuns v). substitute d w = w)"
    and inh: "\<forall>w \<in> set (wordRuns t).
                d (toLowerCase w) = None \<longrightarrow> inheritedProperty (toLowerCase w) = None"
  shows "translateToUrdu d (translateToUrdu d t) = translateToUrdu d t"
proof -
  have "\<forall>w \<in> set (wordRuns t). replaceWords (substitute d) (substitute d w) = substitute d w"
  proof
    fix w assume w: "w \<in> set (wordRuns t)"
    then obtain c cs where wc: "w = c # cs" "isWordChar c" "\<forall>x \<in> set cs. isWordChar x"
      using wordRuns_word by blast
    then have self: "replaceWords (substitute d) w = substitute d w"
      by (simp only: replaceWords_word)
    show "replaceWords (substitute d) (substitute d w) = substitute d w"
    proof (cases "d (toLowerCase w)")
      case None
      with inh w have "inheritedProperty (toLowerCase w) = None" by blast
      with None have "substitute d w = w" by (simp add: substitute_def)
      with self show ?thesis by simp
    next
      case (Some v)
      show ?thesis
      proof (cases "v = []")
        case True
        with Some have "substitute d w = w" by (simp add: substitute_def)
        with self show ?thesis by simp
      next
        case False
        with Some have sv: "substitute d w = v" by (simp add: substitute_def)
        from vals Some have "\<forall>w \<in> set (wordRuns v). substitute d w = w" by blast
        then have "replaceWords (substitute d) v = v" by (rule replaceWords_fixed)
        with sv show ?thesis by simp
      qed
    qed
  qed
  then show ?thesis
    unfolding translateToUrdu_def by (rule replaceWords_idem)
qed

theorem translateToUrdu_idempotent_witness:
  "translateToUrdu niceDict (js ''Good day, good night'') = js ''very nice day, very nice night''
   \<and> translateToUrdu niceDict (translateToUrdu niceDict (js ''Good day, good night''))
       = translateToUrdu niceDict (js ''Good day, good night'')"
proof -
  have runs: "wordRuns (js ''very nice'') = [js ''very'', js ''nice'']"
    by code_simp
  have very: "substitute niceDict (js ''very'') = js ''very''"
    by code_simp
  have nice: "substitute niceDict (js ''nice'') = js ''nice''"
    by code_simp
  have h1: "\<forall>k v. niceDict k = Some v \<longrightarrow> (\<forall>w \<in> set (wordRuns v). substitute niceDict w = w)"
  proof (intro allI impI)
    fix k v assume "niceDict k = Some v"
    then have "v = js ''very nice''"
      by (simp add: niceDict_def split: if_splits)
    with runs very nice show "\<forall>w \<in> set (wordRuns v). substitute niceDict w = w"
      by simp
  qed
  have h2: "\<forall>w \<in> set (wordRuns (js ''Good day, good night'')).
         niceDict (toLowerCase w) = None \<longrightarrow> inheritedProperty (toLowerCase w) = None"
    by code_simp
  have v: "translateToUrdu niceDict (js ''Good day, good night'') = js ''very nice day, very nice night''"
    by code_simp
  from v translateToUrdu_idempotent [OF h1 h2] show ?thesis by blast
qed

text \<open>
  C4 as the specification words it fails: in \<open>{ good: "very nice", nice: "fine" }\<close> no
  replacement value is a key, and the second translation changes the first.
\<close>

theorem translateToUrdu_twice_counterexample:
  "ran chainedDict \<inter> dom chainedDict = {}
   \<and> translateToUrdu chainedDict (js ''good'') = js ''very nice''
   \<and> translateToUrdu chainedDict (translateToUrdu chainedDict (js ''good'')) = js ''very fine''
   \<and> translateToUrdu chainedDict (translateToUrdu chainedDict (js ''good''))
       \<noteq> translateToUrdu chainedDict (js ''good'')"
proof -
  have "ran chainedDict \<inter> dom chainedDict = {}"
    by (auto simp: chainedDict_def ran_def js_def split: if_splits)
  moreover have "translateToUrdu chainedDict (js ''good'') = js ''very nice''"
    by code_simp
  moreover have "translateToUrdu chainedDict (translateToUrdu chainedDict (js ''good'')) = js ''very fine''"
    by code_simp
  moreover have "js ''very fine'' \<noteq> js ''very nice''"
    by (simp add: js_def)
  ultimately show ?thesis by simp
qed

text \<open>
  The example of C5: \<open>Hello, world!\<close> with the dictionary of \<open>hello\<close> and \<open>world\<close>; the
  comma, the space and the exclamation mark stay where they are.
\<close>

lemma translateToUrdu_hello_world:
  "translateToUrdu helloWorldDict (js ''Hello, world!'')
     = [0x633, 0x644, 0x627, 0x645] @ js '', '' @ [0x62F, 0x646, 0x6CC, 0x627] @ js ''!''"
  by code_simp

text \<open>
  C5 on the word \<open>constructor\<close>. It is not a key of the dictionary, and the translator
  does not leave it unchanged: the lookup finds the property that every object inherits
  and the run is replaced by the text of the function \<open>Object\<close>.
\<close>

theorem translateToUrdu_constructor:
  "translationDict (js ''constructor'') = None
   \<and> translateToUrdu translationDict (js ''The constructor is called first'')
       = [0x6CC, 0x6C1] @ js '' function Object() { [native code] } '' @ [0x6C1, 0x6D2]
           @ js '' called first''"
  by code_simp

section \<open>Properties of the request handler\<close>

lemma whitespaceTokens_dropWhile:
  "whitespaceTokens (dropWhile isSpace xs) = whitespaceTokens xs"
  by (induction xs) auto

lemma last_dropWhile:
  assumes "dropWhile P xs \<noteq> []"
  shows "last (dropWhile P xs) = last xs"
proof -
  have "last (takeWhile P xs @ dropWhile P xs) = last (dropWhile P xs)"
    using assms by (rule last_appendR)
  then show ?thesis by simp
qed

lemma splitOn_tokens:
  "s \<noteq> [] \<Longrightarrow> \<not> isSpace (hd s) \<Longrightarrow> \<not> isSpace (last s) \<Longrightarrow>
   splitOn isSpace s = whitespaceTokens s"
proof (induction "length s" arbitrary: s rule: less_induct)
  case less
  from less.prems obtain c cs where s: "s = c # cs" and c: "\<not> isSpace c"
    by (cases s) auto
  let ?tw = "takeWhile (\<lambda>x. \<not> isSpace x) cs"
  let ?dw = "dropWhile (\<lambda>x. \<not> isSpace x) cs"
  have tws: "takeWhile (\<lambda>x. \<not> isSpace x) s = c # ?tw" using s c by simp
  have dws: "dropWhile (\<lambda>x. \<not> isSpace x) s = ?dw" using s c by simp
  have wt: "whitespaceTokens s = (c # ?tw) # whitespaceTokens ?dw" using s c by simp
  show ?case
  proof (cases ?dw)
    case Nil
    have "?tw @ ?dw = cs" by (rule takeWhile_dropWhile_id)
    with Nil have twcs: "?tw = cs" by simp
    have "splitOn isSpace s = [s]"
      unfolding splitOn.simps [of isSpace s] dws Nil by simp
    moreover have "whitespaceTokens s = [s]"
    proof -
      have "whitespaceTokens s = (c # ?tw) # whitespaceTokens ?dw" by (rule wt)
      also have "\<dots> = (c # cs) # whitespaceTokens []" by (simp only: Nil twcs)
      also have "\<dots> = [s]" by (simp add: s)
      finally show ?thesis .
    qed
    ultimately show ?thesis by simp
  next
    case (Cons r rs)
    have "?dw \<noteq> []" using Cons by simp
    then have "\<not> \<not> isSpace (hd ?dw)" by (rule hd_dropWhile)
    with Cons have r: "isSpace r" by simp
    let ?rest = "dropWhile isSpace rs"
    have lasts: "last ?dw = last s"
    proof -
      have "last ?dw = last cs" using \<open>?dw \<noteq> []\<close> by (rule last_dropWhile)
      moreover have "cs \<noteq> []" using \<open>?dw \<noteq> []\<close> by auto
      ultimately show ?thesis using s by simp
    qed
    have ne: "?rest \<noteq> []"
    proof
      assume e: "?rest = []"
      then have all: "\<forall>x \<in> set rs. isSpace x" by simp
      have "isSpace (last (r # rs))"
      proof (cases "rs = []")
        case True
        with r show ?thesis by simp
      next
        case False
        then have "last rs \<in> set rs" by simp
        with all False show ?thesis by simp
      qed
      with Cons lasts less.prems(3) show False by simp
    qed
    then have hdrest: "\<not> isSpace (hd ?rest)" by (rule hd_dropWhile)
    have lastrest: "\<not> isSpace (last ?rest)"
    proof -
      have "last ?rest = last rs" using ne by (rule last_dropWhile)
      moreover have "rs \<noteq> []" using ne by auto
      ultimately have "last ?rest = last (r # rs)" by simp
      with Cons lasts less.prems(3) show ?thesis by simp
    qed
    have len: "length ?rest < length s"
    proof -
      have "length ?rest \<le> length rs" by (rule length_dropWhile_le)
      moreover have "length (r # rs) \<le> length cs"
        using Cons length_dropWhile_le [of "\<lambda>x. \<not> isSpace x" cs] by simp
      ultimately show ?thesis using s by simp
    qed
    have ih: "splitOn isSpace ?rest = whitespaceTokens ?rest"
      using len ne hdrest lastrest by (rule less.hyps)
    have "splitOn isSpace s = (c # ?tw) # splitOn isSpace ?rest"
      unfolding splitOn.simps [of isSpace s] dws Cons tws by simp
    moreover have "whitespaceTokens ?dw = whitespaceTokens ?rest"
      unfolding Cons using r by (simp add: whitespaceTokens_dropWhile)
    ultimately show ?thesis using wt ih by simp
  qed
qed

lemma trim_ends:
  assumes "trim t \<noteq> []"
  shows "\<not> isSpace (hd (trim t)) \<and> \<not> isSpace (last (trim t))"
proof -
  let ?u = "dropWhile isSpace t"
  let ?v = "dropWhile isSpace (rev ?u)"
  have tr: "trim t = rev ?v" by (simp add: trim_def)
  with assms have v: "?v \<noteq> []" by simp
  then have hv: "\<not> isSpace (hd ?v)" by (rule hd_dropWhile)
  have u: "?u \<noteq> []"
  proof
    assume e: "?u = []"
    have "?v = []" by (simp only: e rev.simps dropWhile.simps)
    with v show False by simp
  qed
  then have hu: "\<not> isSpace (hd ?u)" by (rule hd_dropWhile)
  have "last ?v = last (rev ?u)" using v by (rule last_dropWhile)
  also have "\<dots> = hd ?u" using u by (simp add: last_rev)
  finally have lv: "last ?v = hd ?u" .
  have "hd (trim t) = last ?v" using v tr by (simp add: hd_rev)
  moreover have "last (trim t) = hd ?v" using v tr by (simp add: last_rev)
  ultimately show ?thesis using hv hu lv by simp
qed

lemma extractTextFromHtml_tokens:
  assumes "extractTextFromHtml html \<noteq> []"
  shows "splitOn isSpace (extractTextFromHtml html) = whitespaceTokens (extractTextFromHtml html)"
proof -
  let ?t = "trim (collapseSpaces (selectedContent (removeMatching noiseSelector html)))"
  have e: "extractTextFromHtml html = ?t"
    using assms by (simp add: extractTextFromHtml_line split: if_splits)
  with assms have "?t \<noteq> []" by simp
  then have "\<not> isSpace (hd ?t) \<and> \<not> isSpace (last ?t)" by (rule trim_ends)
  with \<open>?t \<noteq> []\<close> have "splitOn isSpace ?t = whitespaceTokens ?t"
    by (simp add: splitOn_tokens)
  with e show ?thesis by simp
qed

lemma POST_page:
  assumes "destructureUrl b = Some (Some u)" and "truthy u" and "urlParses w"
    and "fetchResult w = Page html"
  shows "POST w (Some b) = (processPage u html, [NewURL u, AxiosGet u])"
  using assms by (simp add: POST_def)

lemma join_nonempty: "x \<noteq> [] \<Longrightarrow> join sep (x # ys) \<noteq> []"
  by (cases ys) auto

lemma generateSummary_empty_iff:
  "generateSummary c = [] \<longleftrightarrow> uniqueSentences c = []"
proof (cases "uniqueSentences c")
  case Nil
  then show ?thesis by (simp add: generateSummary_def)
next
  case (Cons x xs)
  then have "x \<in> set (uniqueSentences c)" by simp
  then have "keepSentence x" by (simp add: uniqueSentences_def)
  then have "x \<noteq> []" by (auto simp: keepSentence_def)
  then have "join (js '' '') (x # take 2 xs) \<noteq> []" by (rule join_nonempty)
  moreover have "take 3 (x # xs) = x # take 2 xs" by (simp add: take_Cons')
  ultimately show ?thesis using Cons by (simp add: generateSummary_def)
qed

lemma set_uniqFrom: "set (uniqFrom seen xs) = set xs - set seen"
  by (induction xs arbitrary: seen) auto

lemma set_uniq: "set (uniq xs) = set xs"
  by (simp add: uniq_def set_uniqFrom)

lemma uniqueSentences_empty_iff:
  "uniqueSentences c = []
     \<longleftrightarrow> (\<forall>s \<in> set (sentences c). \<not> (30 < length (trim s) \<and> \<not> matchesNoise (trim s)))"
proof -
  have "uniqueSentences c = []
          \<longleftrightarrow> (\<forall>x \<in> set (uniq (map trim (sentences c))). \<not> keepSentence x)"
    by (simp add: uniqueSentences_def filter_empty_conv)
  also have "\<dots> \<longleftrightarrow> (\<forall>s \<in> set (sentences c). \<not> keepSentence (trim s))"
    by (simp add: set_uniq)
  finally show ?thesis by (simp add: keepSentence_def)
qed

lemma reaches_page:
  "destructureUrl (urlBody sampleUrl) = Some (Some (JString sampleUrl))"
  "truthy (JString sampleUrl)"
  "urlParses (online page)"
  "fetchResult (online page) = Page page"
  by (simp_all add: urlBody_def sampleUrl_def online_def js_def)

section \<open>Claims about the request handler\<close>

text \<open>
  C6. When the request reaches the extraction step (the body has a truthy \<open>url\<close>, the
  URL parses and the fetch returns a page), the handler answers 400 with
  \<open>Could not extract sufficient content from the webpage\<close> exactly when the extracted
  content is shorter than 100 code units, and then no blog record is returned.
\<close>

theorem insufficient_content_iff:
  assumes "destructureUrl b = Some (Some u)" and "truthy u" and "urlParses w"
    and "fetchResult w = Page html"
  shows "(POST w (Some b)
            = (ErrorJson 400 ''Could not extract sufficient content from the webpage'',
               [NewURL u, AxiosGet u]))
           = (length (extractTextFromHtml html) < 100)
         \<and> (length (extractTextFromHtml html) < 100
              \<longrightarrow> (\<forall>st blog k. POST w (Some b) \<noteq> (BlogJson st blog, k)))"
proof -
  have p: "POST w (Some b) = (processPage u html, [NewURL u, AxiosGet u])"
    using assms by (rule POST_page)
  show ?thesis
  proof (cases "length (extractTextFromHtml html) < 100")
    case True
    then have "processPage u html
                 = ErrorJson 400 ''Could not extract sufficient content from the webpage''"
      by (simp add: processPage_def Let_def)
    with p True show ?thesis by simp
  next
    case False
    then have "processPage u html
                 \<noteq> ErrorJson 400 ''Could not extract sufficient content from the webpage''"
      by (auto simp: processPage_def Let_def)
    with p False show ?thesis by simp
  qed
qed

theorem insufficient_content_iff_witness:
  "length (extractTextFromHtml articlePage) < 100
   \<and> POST (online articlePage) (Some (urlBody sampleUrl))
       = (ErrorJson 400 ''Could not extract sufficient content from the webpage'',
          [NewURL (JString sampleUrl), AxiosGet (JString sampleUrl)])
   \<and> (\<forall>st blog k. POST (online articlePage) (Some (urlBody sampleUrl)) \<noteq> (BlogJson st blog, k))"
proof -
  have l: "length (extractTextFromHtml articlePage) < 100"
    by code_simp
  from insufficient_content_iff [OF reaches_page, of articlePage] l show ?thesis
    by blast
qed

text \<open>
  C7. When the extracted content has at least 100 code units, the handler answers 400
  with \<open>Could not generate summary from the content\<close> exactly when none of the
  sentences matched in the content is, once trimmed, longer than 30 code units and free
  of the noise phrases (removing duplicates leaves none where there was none); when
  there is such a sentence it answers 200 with a blog record whose summary is what the
  summariser returns and is not empty.
\<close>

theorem no_summary_iff:
  assumes "destructureUrl b = Some (Some u)" and "truthy u" and "urlParses w"
    and "fetchResult w = Page html"
    and "100 \<le> length (extractTextFromHtml html)"
  shows "(POST w (Some b)
            = (ErrorJson 400 ''Could not generate summary from the content'',
               [NewURL u, AxiosGet u]))
           = (\<forall>s \<in> set (sentences (extractTextFromHtml html)).
                \<not> (30 < length (trim s) \<and> \<not> matchesNoise (trim s)))
         \<and> ((\<exists>s \<in> set (sentences (extractTextFromHtml html)).
                30 < length (trim s) \<and> \<not> matchesNoise (trim s))
              \<longrightarrow> (\<exists>blog. POST w (Some b) = (BlogJson 200 blog, [NewURL u, AxiosGet u])
                     \<and> summary blog = generateSummary (extractTextFromHtml html)
                     \<and> summary blog \<noteq> []))"
proof -
  let ?c = "extractTextFromHtml html"
  have p: "POST w (Some b) = (processPage u html, [NewURL u, AxiosGet u])"
    using assms(1-4) by (rule POST_page)
  have long: "\<not> length ?c < 100" "?c \<noteq> []"
    using assms(5) by auto
  have crit: "(uniqueSentences ?c = [])
     = (\<forall>s \<in> set (sentences ?c). \<not> (30 < length (trim s) \<and> \<not> matchesNoise (trim s)))"
    by (rule uniqueSentences_empty_iff)
  show ?thesis
  proof (cases "uniqueSentences ?c = []")
    case True
    then have "generateSummary ?c = []"
      by (simp add: generateSummary_empty_iff)
    with long have "processPage u html
                      = ErrorJson 400 ''Could not generate summary from the content''"
      by (simp add: processPage_def Let_def)
    with p True crit show ?thesis by auto
  next
    case False
    then have g: "generateSummary ?c \<noteq> []"
      by (simp add: generateSummary_empty_iff)
    with long obtain blog where "processPage u html = BlogJson 200 blog"
      and "summary blog = generateSummary ?c"
      by (simp add: processPage_def Let_def)
    with p g False crit show ?thesis by auto
  qed
qed


theorem no_summary_iff_witness:
  "100 \<le> length (extractTextFromHtml (pageOf blandText))
   \<and> map (\<lambda>s. length (trim s)) (sentences (extractTextFromHtml (pageOf blandText)))
       = [14, 14, 17, 18, 18, 16, 10]
   \<and> POST (online (pageOf blandText)) (Some (urlBody sampleUrl))
       = (ErrorJson 400 ''Could not generate summary from the content'',
          [NewURL (JString sampleUrl), AxiosGet (JString sampleUrl)])
   \<and> 100 \<le> length (extractTextFromHtml (pageOf blogText))
   \<and> map (\<lambda>s. length (trim s)) (sentences (extractTextFromHtml (pageOf blogText)))
       = [50, 3, 45, 3, 1]
   \<and> (\<exists>blog. POST (online (pageOf blogText)) (Some (urlBody sampleUrl))
                = (BlogJson 200 blog, [NewURL (JString sampleUrl), AxiosGet (JString sampleUrl)])
             \<and> summary blog = generateSummary (extractTextFromHtml (pageOf blogText))
             \<and> summary blog \<noteq> [])"
proof -
  have e: "extractTextFromHtml (pageOf blandText) = blandText"
    by code_simp
  have l: "100 \<le> length (extractTextFromHtml (pageOf blandText))"
    unfolding e by code_simp
  have m: "map (\<lambda>s. length (trim s)) (sentences (extractTextFromHtml (pageOf blandText)))
             = [14, 14, 17, 18, 18, 16, 10]"
    unfolding e by code_simp
  have none: "\<forall>s \<in> set (sentences (extractTextFromHtml (pageOf blandText))).
                \<not> (30 < length (trim s) \<and> \<not> matchesNoise (trim s))"
    unfolding e by code_simp
  have e': "extractTextFromHtml (pageOf blogText) = blogText"
    by code_simp
  have l': "100 \<le> length (extractTextFromHtml (pageOf blogText))"
    unfolding e' by code_simp
  have m': "map (\<lambda>s. length (trim s)) (sentences (extractTextFromHtml (pageOf blogText)))
             = [50, 3, 45, 3, 1]"
    unfolding e' by code_simp
  have some: "\<exists>s \<in> set (sentences (extractTextFromHtml (pageOf blogText))).
                30 < length (trim s) \<and> \<not> matchesNoise (trim s)"
    unfolding e' by code_simp
  from no_summary_iff [OF reaches_page l] none
  have bad: "POST (online (pageOf blandText)) (Some (urlBody sampleUrl))
       = (ErrorJson 400 ''Could not generate summary from the content'',
          [NewURL (JString sampleUrl), AxiosGet (JString sampleUrl)])"
    by blast
  from no_summary_iff [OF reaches_page l'] some
  have good: "\<exists>blog. POST (online (pageOf blogText)) (Some (urlBody sampleUrl))
                = (BlogJson 200 blog, [NewURL (JString sampleUrl), AxiosGet (JString sampleUrl)])
             \<and> summary blog = generateSummary (extractTextFromHtml (pageOf blogText))
             \<and> summary blog \<noteq> []"
    by blast
  from l m bad l' m' good show ?thesis by blast
qed

text \<open>
  C8, as the code has it. When the \<open>url\<close> of the body is a string that does not parse as
  a URL, the handler answers 400 without calling the fetch: with \<open>Invalid URL format\<close>
  when the string is not empty, and with \<open>URL is required\<close> when it is empty.
\<close>

theorem invalid_url_no_fetch:
  assumes "destructureUrl b = Some (Some (JString s))" and "\<not> urlParses w"
  shows "POST w (Some b) =
           (if s = [] then (ErrorJson 400 ''URL is required'', [])
            else (ErrorJson 400 ''Invalid URL format'', [NewURL (JString s)]))"
  using assms by (simp add: POST_def)

theorem invalid_url_no_fetch_witness:
  "destructureUrl (urlBody (js ''not a url'')) = Some (Some (JString (js ''not a url'')))
   \<and> \<not> urlParses unparsable
   \<and> POST unparsable (Some (urlBody (js ''not a url'')))
       = (ErrorJson 400 ''Invalid URL format'', [NewURL (JString (js ''not a url''))])"
proof -
  have h1: "destructureUrl (urlBody (js ''not a url'')) = Some (Some (JString (js ''not a url'')))"
    by (simp add: urlBody_def)
  have h2: "\<not> urlParses unparsable"
    by (simp add: unparsable_def)
  from invalid_url_no_fetch [OF h1 h2] h1 h2 show ?thesis
    by (simp add: js_def)
qed

text \<open>
  C8 as the specification words it fails on the empty string: it is not a URL, and the
  answer is \<open>URL is required\<close>, not \<open>Invalid URL format\<close>.
\<close>

theorem invalid_url_counterexample:
  "\<not> urlParses unparsable
   \<and> POST unparsable (Some (urlBody [])) = (ErrorJson 400 ''URL is required'', [])
   \<and> fst (POST unparsable (Some (urlBody []))) \<noteq> ErrorJson 400 ''Invalid URL format''"
  by (simp add: unparsable_def urlBody_def POST_def)

text \<open>
  C9. In every blog record the handler returns, \<open>wordCount\<close> is the number of
  white-space delimited tokens of the content extracted from the fetched page (the
  whole content, not the summary and not the 5000 code units kept in the record).
\<close>

theorem wordCount_counts_tokens:
  assumes "POST w body = (BlogJson st blog, n)"
  shows "\<exists>html. fetchResult w = Page html
           \<and> wordCount blog = length (whitespaceTokens (extractTextFromHtml html))"
proof -
  from assms obtain u html where f: "fetchResult w = Page html"
    and p: "processPage u html = BlogJson st blog"
    by (auto simp: POST_def internalError_def catchAxios_def
             split: option.splits if_splits fetched.splits)
  from p have ne: "extractTextFromHtml html \<noteq> []"
    and wc: "wordCount blog = length (splitOn isSpace (extractTextFromHtml html))"
    by (auto simp: processPage_def Let_def split: if_splits)
  from ne have "splitOn isSpace (extractTextFromHtml html) = whitespaceTokens (extractTextFromHtml html)"
    by (rule extractTextFromHtml_tokens)
  with wc f show ?thesis by simp
qed

theorem wordCount_counts_tokens_witness:
  "POST (online (pageOf blogText)) (Some (urlBody sampleUrl))
     = (BlogJson 200 sampleBlog, [NewURL (JString sampleUrl), AxiosGet (JString sampleUrl)])
   \<and> wordCount sampleBlog = 21
   \<and> (\<exists>html. fetchResult (online (pageOf blogText)) = Page html
         \<and> wordCount sampleBlog = length (whitespaceTokens (extractTextFromHtml html)))"
proof -
  have e: "extractTextFromHtml (pageOf blogText) = blogText"
    by code_simp
  have t: "extractTitle (pageOf blogText) = js ''Notes''"
    by code_simp
  have l: "length blogText = 106"
    by code_simp
  have g: "generateSummary blogText = summary sampleBlog"
    by code_simp
  have r: "translateToUrdu translationDict (summary sampleBlog) = urduSummary sampleBlog"
    by code_simp
  have c: "length (splitOn isSpace blogText) = 21"
    by code_simp
  have rt: "calculateReadTime 21 = 1"
    by (simp add: calculateReadTime_def)
  have ne: "blogText \<noteq> []" "summary sampleBlog \<noteq> []"
    using l by (auto simp: sampleBlog_def js_def)
  have "processPage (JString sampleUrl) (pageOf blogText) = BlogJson 200 sampleBlog"
    unfolding processPage_def Let_def e t g r c rt using ne l
    by (simp add: sampleBlog_def js_def)
  then have p: "POST (online (pageOf blogText)) (Some (urlBody sampleUrl))
      = (BlogJson 200 sampleBlog, [NewURL (JString sampleUrl), AxiosGet (JString sampleUrl)])"
    using POST_page [OF reaches_page, of "pageOf blogText"] by simp
  from wordCount_counts_tokens [OF p] p show ?thesis
    by (simp add: sampleBlog_def)
qed

text \<open>
  A body other than \<open>null\<close> that lacks a \<open>url\<close> field, or whose \<open>url\<close> is the empty
  string, is answered 400 with \<open>URL is required\<close>, whatever the URL parser and the fetch
  would do, and no call leaves the program.
\<close>

lemma url_required:
  assumes "b \<noteq> JNull"
    and "lacksUrlField b \<or> destructureUrl b = Some (Some (JString []))"
  shows "POST w (Some b) = (ErrorJson 400 ''URL is required'', [])"
proof -
  from assms(2) show ?thesis
  proof
    assume l: "lacksUrlField b"
    have "destructureUrl b = Some None"
    proof (cases b)
      case (JObject members)
      with l have "map_of (rev members) (js ''url'') = None"
        by (simp add: lacksUrlField_def map_of_eq_None_iff)
      with JObject show ?thesis by simp
    qed (use assms(1) in simp_all)
    then show ?thesis by (simp add: POST_def)
  next
    assume "destructureUrl b = Some (Some (JString []))"
    then show ?thesis by (simp add: POST_def)
  qed
qed



text \<open>
  C10 on the body \<open>null\<close>. It has no \<open>url\<close> field, yet the answer is not
  \<open>URL is required\<close>: destructuring \<open>null\<close> throws before the test of \<open>url\<close> is
  reached, and the \<open>catch\<close> block answers 500. An empty array and an empty object, which
  lack the field as well, are answered 400 with \<open>URL is required\<close>.
\<close>

theorem POST_null_body:
  "lacksUrlField JNull
   \<and> POST unparsable (Some JNull)
       = (ErrorJson 500 ''Failed to process the blog. Please try again.'', [])
   \<and> lacksUrlField (JArray [])
   \<and> POST unparsable (Some (JArray [])) = (ErrorJson 400 ''URL is required'', [])
   \<and> lacksUrlField (JObject [])
   \<and> POST unparsable (Some (JObject [])) = (ErrorJson 400 ''URL is required'', [])"
  by (simp add: lacksUrlField_def POST_def internalError_def)


end
